theory Spec2Isabelle
  imports Complex_Main
begin

section \<open>Data model of the cart service\<close>

text \<open>
  The Go program keeps prices in \<open>float64\<close>. A finite \<open>float64\<close> denotes one exact
  rational number; the model computes with these exact values, so \<open>+\<close>, \<open>-\<close>, \<open>*\<close> and
  \<open>/\<close> below are the exact operations and the special values NaN and the infinities
  (which a decoded JSON payload cannot contain) are not part of the model. Comparison of
  prices is the usual order.
\<close>

type_synonym float64 = rat

record Configuration =
  PrerequisiteSkus :: "string list"
  EligibleSkus :: "string list"
  DiscountUnit :: string
  DiscountValue :: float64

record LineItem =
  Name :: string
  Price :: float64
  Sku :: string
  DiscountedPrice :: float64

record Cart =
  Reference :: string
  LineItems :: "LineItem list"
  Total :: float64

record Cashier =
  config :: Configuration

text \<open>\<open>errors.New(msg)\<close>: an error value that carries its message.\<close>

datatype error = errors_New string

definition NewCashier :: "Configuration \<Rightarrow> Cashier" where
  "NewCashier cfg = \<lparr>config = cfg\<rparr>"

text \<open>The compiled-in configuration of the deployment (the package variable \<open>config\<close>).\<close>

definition default_config :: Configuration where
  "default_config =
     \<lparr>PrerequisiteSkus = [''PEANUT-BUTTER'', ''COCOA'', ''FRUITY''],
      EligibleSkus = [''BANANA-CAKE'', ''COCOA'', ''CHOCOLATE''],
      DiscountUnit = ''percentage'',
      DiscountValue = 50\<rparr>"

section \<open>Formatting and re-parsing a number with two fractional digits\<close>

text \<open>
  \<open>fmt.Sprintf("%.2f", amount)\<close> prints the exact value of \<open>amount\<close> correctly rounded to
  two fractional digits; the Go library rounds a value that lies exactly halfway between
  two candidates to the one whose last digit is even. \<open>round_half_even\<close> is that rounding
  of a non-negative number of hundredths to an integer.
\<close>

definition round_half_even :: "rat \<Rightarrow> int" where
  "round_half_even q =
     (let f = \<lfloor>q\<rfloor>; r = q - of_int f
      in if r < 1 / 2 then f
         else if 1 / 2 < r then f + 1
         else if even f then f else f + 1)"

definition digit_char :: "nat \<Rightarrow> char" where
  "digit_char d = ''0123456789'' ! d"

definition digit_val :: "char \<Rightarrow> nat option" where
  "digit_val c =
     map_of [(CHR ''0'', 0), (CHR ''1'', 1), (CHR ''2'', 2), (CHR ''3'', 3), (CHR ''4'', 4),
             (CHR ''5'', 5), (CHR ''6'', 6), (CHR ''7'', 7), (CHR ''8'', 8), (CHR ''9'', 9)] c"

text \<open>Decimal digits of a natural number, most significant first, no leading zeros.\<close>

function itoa :: "nat \<Rightarrow> string" where
  "itoa n = (if n < 10 then [digit_char n] else itoa (n div 10) @ [digit_char (n mod 10)])"
  by pat_completeness auto
termination
  by (relation "measure (\<lambda>n. n)") auto

declare itoa.simps [simp del]

definition Sprintf_2f :: "float64 \<Rightarrow> string" where
  "Sprintf_2f amount =
     (let n = nat (round_half_even (\<bar>amount\<bar> * 100))
      in (if amount < 0 then ''-'' else '''') @ itoa (n div 100) @ ''.'' @
         [digit_char (n div 10 mod 10), digit_char (n mod 10)])"

text \<open>
  \<open>strconv.ParseFloat(s, 64)\<close> on plain decimal notation: an optional sign, digits, and
  an optional point followed by digits, with at least one digit overall. The result is
  \<open>None\<close> where the library reports an error. The library also accepts exponents,
  hexadecimal notation and the names of the special values; such text is never printed by
  \<open>Sprintf_2f\<close> and this model gives \<open>None\<close> for it.
\<close>

fun scan_digits :: "nat \<Rightarrow> nat \<Rightarrow> string \<Rightarrow> nat \<times> nat \<times> string" where
  "scan_digits acc cnt [] = (acc, cnt, [])"
| "scan_digits acc cnt (c # cs) =
     (case digit_val c of
        None \<Rightarrow> (acc, cnt, c # cs)
      | Some d \<Rightarrow> scan_digits (10 * acc + d) (Suc cnt) cs)"

definition strconv_ParseFloat :: "string \<Rightarrow> float64 option" where
  "strconv_ParseFloat s =
     (let (neg, s1) =
            (case s of
               [] \<Rightarrow> (False, [])
             | c # cs \<Rightarrow> if c = CHR ''-'' then (True, cs)
                         else if c = CHR ''+'' then (False, cs) else (False, s));
          (ip, ni, s2) = scan_digits 0 0 s1;
          (fp, nf, s3) =
            (case s2 of
               [] \<Rightarrow> (0, 0, [])
             | c # cs \<Rightarrow> if c = CHR ''.'' then scan_digits 0 0 cs else (0, 0, s2))
      in if ni + nf = 0 then None
         else if s3 = [] then
           Some ((if neg then - 1 else 1) * (of_nat ip + of_nat fp / 10 ^ nf))
         else None)"

section \<open>The Cashier\<close>

text \<open>
  \<open>parseFloat\<close> formats and re-parses; when the parse reports an error it returns \<open>-1\<close>.
  The parsing function is a parameter of \<open>parseFloat_with\<close> so that the error branch of
  the source is a branch of the model; \<open>parseFloat\<close> itself uses the library's parser.
\<close>

definition parseFloat_with :: "(string \<Rightarrow> float64 option) \<Rightarrow> float64 \<Rightarrow> float64" where
  "parseFloat_with parse amount =
     (let formatted = Sprintf_2f amount
      in case parse formatted of
           None \<Rightarrow> - 1
         | Some parsed \<Rightarrow> parsed)"

definition parseFloat :: "Cashier \<Rightarrow> float64 \<Rightarrow> float64" where
  "parseFloat c amount = parseFloat_with strconv_ParseFloat amount"

text \<open>
  Building a \<open>map[string]bool\<close> from a list of SKUs, and reading it: a key that is absent
  reads as \<open>false\<close>.
\<close>

fun sku_map :: "string list \<Rightarrow> (string \<rightharpoonup> bool) \<Rightarrow> (string \<rightharpoonup> bool)" where
  "sku_map [] m = m"
| "sku_map (sku # skus) m = sku_map skus (m(sku \<mapsto> True))"

definition map_index :: "(string \<rightharpoonup> bool) \<Rightarrow> string \<Rightarrow> bool" where
  "map_index m k = (case m k of None \<Rightarrow> False | Some b \<Rightarrow> b)"

fun eligible_loop :: "(string \<rightharpoonup> bool) \<Rightarrow> LineItem list \<Rightarrow> LineItem list" where
  "eligible_loop m [] = []"
| "eligible_loop m (item # items) =
     (if map_index m (Sku item) then item # eligible_loop m items else eligible_loop m items)"

definition getEligibleForDiscount :: "Cashier \<Rightarrow> LineItem list \<Rightarrow> LineItem list" where
  "getEligibleForDiscount c items =
     (let eligibleSkus = sku_map (EligibleSkus (config c)) Map.empty
      in eligible_loop eligibleSkus items)"

fun prerequisite_loop :: "(string \<rightharpoonup> bool) \<Rightarrow> LineItem list \<Rightarrow> bool" where
  "prerequisite_loop m [] = False"
| "prerequisite_loop m (item # items) =
     (if map_index m (Sku item) then True else prerequisite_loop m items)"

definition hasPrerequisiteSku :: "Cashier \<Rightarrow> LineItem list \<Rightarrow> bool" where
  "hasPrerequisiteSku c items =
     (let prerequisiteSkus = sku_map (PrerequisiteSkus (config c)) Map.empty
      in prerequisite_loop prerequisiteSkus items)"

fun cheapest_loop :: "LineItem \<Rightarrow> LineItem list \<Rightarrow> LineItem" where
  "cheapest_loop cheapest [] = cheapest"
| "cheapest_loop cheapest (item # items) =
     cheapest_loop (if Price cheapest > Price item then item else cheapest) items"

definition getCheapestProduct :: "Cashier \<Rightarrow> LineItem list \<Rightarrow> error + LineItem" where
  "getCheapestProduct c items =
     (if length items < 1 then Inl (errors_New ''empty list of products'')
      else Inr (cheapest_loop (items ! 0) items))"

definition calculateDiscount :: "Cashier \<Rightarrow> float64 \<Rightarrow> error + float64" where
  "calculateDiscount c amount =
     (if DiscountUnit (config c) = ''percentage''
      then Inr (amount * DiscountValue (config c) / 100)
      else Inl (errors_New ''unsupported discount method''))"

text \<open>
  The pricing loop of \<open>CalculateTotalWithDiscount\<close>: every item gets its rounded
  discounted price and the running total (\<open>total\<close> in the source) grows by that rounded price.
\<close>

fun price_loop ::
  "(float64 \<Rightarrow> float64) \<Rightarrow> string \<Rightarrow> float64 \<Rightarrow> LineItem list \<Rightarrow> float64
     \<Rightarrow> LineItem list \<times> float64" where
  "price_loop rnd discountedSKU discountValue [] running = ([], running)"
| "price_loop rnd discountedSKU discountValue (item # items) running =
     (let itemDiscount = (if Sku item = discountedSKU then discountValue else 0);
          priced = item\<lparr>DiscountedPrice := rnd (Price item - itemDiscount)\<rparr>;
          (rest, final) =
            price_loop rnd discountedSKU discountValue items (running + DiscountedPrice priced)
      in (priced # rest, final))"

definition CalculateTotalWithDiscount_with ::
  "(string \<Rightarrow> float64 option) \<Rightarrow> Cashier \<Rightarrow> Cart \<Rightarrow> error + Cart" where
  "CalculateTotalWithDiscount_with parse c cart =
     (let discountedItems = LineItems cart;
          hasPrerequisite = hasPrerequisiteSku c discountedItems;
          eligibleItems =
            (if hasPrerequisite then getEligibleForDiscount c discountedItems else [])
      in case (if length eligibleItems > 0 then
                 (case getCheapestProduct c eligibleItems of
                    Inl err \<Rightarrow> Inl err
                  | Inr cheapest \<Rightarrow>
                      (case calculateDiscount c (Price cheapest) of
                         Inl err \<Rightarrow> Inl err
                       | Inr discountAmount \<Rightarrow> Inr (Sku cheapest, discountAmount)))
               else Inr ('''', 0)) of
           Inl err \<Rightarrow> Inl err
         | Inr (discountedSKU, discountValue) \<Rightarrow>
             (let (priced, running) =
                    price_loop (parseFloat_with parse) discountedSKU discountValue
                      discountedItems 0
              in Inr \<lparr>Reference = Reference cart, LineItems = priced,
                      Total = parseFloat_with parse running\<rparr>))"

definition CalculateTotalWithDiscount :: "Cashier \<Rightarrow> Cart \<Rightarrow> error + Cart" where
  "CalculateTotalWithDiscount c cart =
     CalculateTotalWithDiscount_with strconv_ParseFloat c cart"


section \<open>Carts of the test suite\<close>

text \<open>The three carts of \<open>main_test.go\<close>; unset fields hold Go's zero values.\<close>

definition test_cart :: Cart where
  "test_cart =
     \<lparr>Reference = ''2d832fe0-6c96-4515-9be7-4c00983539c1'',
      LineItems =
        [\<lparr>Name = ''Peanut Butter'', Price = 39, Sku = ''PEANUT-BUTTER'', DiscountedPrice = 0\<rparr>,
         \<lparr>Name = ''Fruity'', Price = 3499 / 100, Sku = ''FRUITY'', DiscountedPrice = 0\<rparr>,
         \<lparr>Name = ''Chocolate'', Price = 32, Sku = ''CHOCOLATE'', DiscountedPrice = 0\<rparr>],
      Total = 0\<rparr>"

definition cart_multiple_eligible :: Cart where
  "cart_multiple_eligible =
     \<lparr>Reference = ''2d832fe0-6c96-4515-9be7-4c00983539c1'',
      LineItems =
        [\<lparr>Name = ''Peanut Butter'', Price = 39, Sku = ''PEANUT-BUTTER'', DiscountedPrice = 0\<rparr>,
         \<lparr>Name = ''Cocoa'', Price = 35, Sku = ''COCOA'', DiscountedPrice = 0\<rparr>,
         \<lparr>Name = ''Chocolate'', Price = 32, Sku = ''CHOCOLATE'', DiscountedPrice = 0\<rparr>,
         \<lparr>Name = ''Banana Cake'', Price = 36, Sku = ''BANANA-CAKE'', DiscountedPrice = 0\<rparr>],
      Total = 0\<rparr>"

definition cart_not_eligible :: Cart where
  "cart_not_eligible =
     \<lparr>Reference = ''2d832fe0-6c96-4515-9be7-4c00983539c1'',
      LineItems =
        [\<lparr>Name = ''Banana Cake'', Price = 36, Sku = ''BANANA-CAKE'', DiscountedPrice = 0\<rparr>,
         \<lparr>Name = ''Chocolate'', Price = 32, Sku = ''CHOCOLATE'', DiscountedPrice = 0\<rparr>],
      Total = 0\<rparr>"

text \<open>
  Further inputs used below: a configuration whose unit is not \<open>"percentage"\<close>, carts
  whose prices are binary fractions (so that the \<open>float64\<close> arithmetic on them is exact),
  and a parser that reports an error on every text.
\<close>

definition fixed_unit_config :: Configuration where
  "fixed_unit_config =
     \<lparr>PrerequisiteSkus = [''PEANUT-BUTTER'', ''COCOA'', ''FRUITY''],
      EligibleSkus = [''BANANA-CAKE'', ''COCOA'', ''CHOCOLATE''],
      DiscountUnit = ''fixed'',
      DiscountValue = 50\<rparr>"



definition cart_sixteenths :: Cart where
  "cart_sixteenths =
     \<lparr>Reference = ''sixteenths'',
      LineItems =
        [\<lparr>Name = ''Banana Cake'', Price = 7 / 16, Sku = ''BANANA-CAKE'', DiscountedPrice = 0\<rparr>],
      Total = 0\<rparr>"


section \<open>Rounding rules as arithmetic\<close>

text \<open>
  Rounding to two fractional digits with ties going to the even hundredth: the value that
  the printed text of \<open>Sprintf_2f\<close> denotes.
\<close>

definition round_half_even_2dp :: "rat \<Rightarrow> rat" where
  "round_half_even_2dp x =
     (if x < 0 then - 1 else 1) * of_int (round_half_even (\<bar>x\<bar> * 100)) / 100"


section \<open>Printing and parsing are inverse up to rounding\<close>

lemma digit_val_digit_char: "d < 10 \<Longrightarrow> digit_val (digit_char d) = Some d"
proof -
  assume "d < 10"
  then have "d \<in> {0, 1, 2, 3, 4, 5, 6, 7, 8, 9}" by auto
  then show ?thesis
    unfolding digit_val_def digit_char_def by auto
qed

lemma digit_val_point: "digit_val CHR ''.'' = None"
  by (simp add: digit_val_def)

lemma digit_val_sign: "digit_val c = Some d \<Longrightarrow> c \<noteq> CHR ''-'' \<and> c \<noteq> CHR ''+''"
  by (auto simp: digit_val_def)

lemma itoa_small: "n < 10 \<Longrightarrow> itoa n = [digit_char n]"
  by (subst itoa.simps) simp

lemma itoa_large: "\<not> n < 10 \<Longrightarrow> itoa n = itoa (n div 10) @ [digit_char (n mod 10)]"
  by (subst itoa.simps) simp

lemma scan_digits_itoa:
  "scan_digits 0 0 (itoa n @ rest) = scan_digits n (length (itoa n)) rest"
proof (induction n arbitrary: rest rule: itoa.induct)
  case (1 n)
  show ?case
  proof (cases "n < 10")
    case True
    then show ?thesis
      by (simp add: itoa_small digit_val_digit_char)
  next
    case False
    have m: "n mod 10 < 10" by simp
    have "scan_digits 0 0 (itoa n @ rest)
          = scan_digits 0 0 (itoa (n div 10) @ (digit_char (n mod 10) # rest))"
      using False by (simp add: itoa_large)
    also have "\<dots> = scan_digits (n div 10) (length (itoa (n div 10))) (digit_char (n mod 10) # rest)"
      using False by (rule "1.IH")
    also have "\<dots> = scan_digits (10 * (n div 10) + n mod 10) (Suc (length (itoa (n div 10)))) rest"
      by (simp add: digit_val_digit_char [OF m])
    also have "\<dots> = scan_digits n (length (itoa n)) rest"
      using False by (simp add: itoa_large)
    finally show ?thesis .
  qed
qed

lemma itoa_head: "\<exists>c cs d. itoa n = c # cs \<and> digit_val c = Some d"
proof (induction n rule: itoa.induct)
  case (1 n)
  show ?case
  proof (cases "n < 10")
    case True
    then show ?thesis by (simp add: itoa_small digit_val_digit_char)
  next
    case False
    with "1.IH" obtain c cs d where "itoa (n div 10) = c # cs" "digit_val c = Some d" by blast
    with False show ?thesis by (simp add: itoa_large)
  qed
qed

lemma itoa_length_pos: "0 < length (itoa n)"
  using itoa_head [of n] by auto

lemma scan_two_digits:
  assumes "a < 10" "b < 10"
  shows "scan_digits 0 0 [digit_char a, digit_char b] = (10 * a + b, 2, [])"
  using assms by (simp add: digit_val_digit_char)

lemma ParseFloat_unsigned:
  assumes "s = c # cs" "c \<noteq> CHR ''-''" "c \<noteq> CHR ''+''"
    and "scan_digits 0 0 s = (ip, ni, CHR ''.'' # t)"
    and "scan_digits 0 0 t = (fp, nf, [])"
    and "0 < ni"
  shows "strconv_ParseFloat s = Some (of_nat ip + of_nat fp / 10 ^ nf)"
proof -
  have "strconv_ParseFloat (c # cs) = Some (of_nat ip + of_nat fp / 10 ^ nf)"
    unfolding strconv_ParseFloat_def
    using assms(2,3,6) assms(4,5) [unfolded assms(1)]
    by (simp del: scan_digits.simps)
  then show ?thesis using assms(1) by simp
qed

lemma ParseFloat_minus:
  assumes "scan_digits 0 0 s = (ip, ni, CHR ''.'' # t)"
    and "scan_digits 0 0 t = (fp, nf, [])"
    and "0 < ni"
  shows "strconv_ParseFloat (CHR ''-'' # s) = Some (- (of_nat ip + of_nat fp / 10 ^ nf))"
  unfolding strconv_ParseFloat_def
  using assms by (simp del: scan_digits.simps)

lemma hundredths_value:
  "(of_nat (n div 100) + of_nat (10 * (n div 10 mod 10) + n mod 10) / 10 ^ 2 :: rat) = of_nat n / 100"
proof -
  have "n mod (10 * 10) = 10 * (n div 10 mod 10) + n mod 10"
    by (rule mod_mult2_eq)
  then have "10 * (n div 10 mod 10) + n mod 10 = n mod 100"
    by simp
  then have "(of_nat (n div 100) + of_nat (10 * (n div 10 mod 10) + n mod 10) / 10 ^ 2 :: rat)
             = (of_nat (n div 100) * 100 + of_nat (n mod 100)) / 100"
    by (simp add: add_divide_distrib)
  also have "\<dots> = of_nat (n div 100 * 100 + n mod 100) / 100"
    by (simp only: of_nat_add of_nat_mult of_nat_numeral)
  finally show ?thesis by simp
qed

lemma scan_body:
  "scan_digits 0 0 (itoa m @ CHR ''.'' # t) = (m, length (itoa m), CHR ''.'' # t)"
  by (simp add: scan_digits_itoa digit_val_point)

lemma ParseFloat_body:
  "strconv_ParseFloat (itoa (n div 100) @ CHR ''.'' # [digit_char (n div 10 mod 10), digit_char (n mod 10)])
     = Some (of_nat n / 100)"
proof -
  let ?t = "[digit_char (n div 10 mod 10), digit_char (n mod 10)]"
  obtain c cs d where hd: "itoa (n div 100) = c # cs" "digit_val c = Some d"
    using itoa_head by blast
  have fp: "scan_digits 0 0 ?t = (10 * (n div 10 mod 10) + n mod 10, 2, [])"
    by (rule scan_two_digits) simp_all
  have "strconv_ParseFloat (itoa (n div 100) @ CHR ''.'' # ?t)
        = Some (of_nat (n div 100) + of_nat (10 * (n div 10 mod 10) + n mod 10) / 10 ^ 2)"
  proof (rule ParseFloat_unsigned [where c = c and cs = "cs @ CHR ''.'' # ?t"])
    show "itoa (n div 100) @ CHR ''.'' # ?t = c # cs @ CHR ''.'' # ?t" using hd(1) by simp
    show "c \<noteq> CHR ''-''" "c \<noteq> CHR ''+''" using digit_val_sign [OF hd(2)] by simp_all
    show "scan_digits 0 0 (itoa (n div 100) @ CHR ''.'' # ?t)
          = (n div 100, length (itoa (n div 100)), CHR ''.'' # ?t)" by (rule scan_body)
    show "scan_digits 0 0 ?t = (10 * (n div 10 mod 10) + n mod 10, 2, [])" by (rule fp)
    show "0 < length (itoa (n div 100))" by (rule itoa_length_pos)
  qed
  then show ?thesis by (simp only: hundredths_value)
qed

lemma ParseFloat_minus_body:
  "strconv_ParseFloat (CHR ''-'' # itoa (n div 100) @ CHR ''.'' # [digit_char (n div 10 mod 10), digit_char (n mod 10)])
     = Some (- (of_nat n / 100))"
proof -
  let ?t = "[digit_char (n div 10 mod 10), digit_char (n mod 10)]"
  have fp: "scan_digits 0 0 ?t = (10 * (n div 10 mod 10) + n mod 10, 2, [])"
    by (rule scan_two_digits) simp_all
  have "strconv_ParseFloat (CHR ''-'' # itoa (n div 100) @ CHR ''.'' # ?t)
        = Some (- (of_nat (n div 100) + of_nat (10 * (n div 10 mod 10) + n mod 10) / 10 ^ 2))"
    by (rule ParseFloat_minus [OF scan_body fp itoa_length_pos])
  then show ?thesis by (simp only: hundredths_value)
qed

lemma round_half_even_nonneg: "0 \<le> q \<Longrightarrow> 0 \<le> round_half_even q"
  by (simp add: round_half_even_def Let_def)

lemma ParseFloat_Sprintf: "strconv_ParseFloat (Sprintf_2f x) = Some (round_half_even_2dp x)"
proof -
  define n where "n = nat (round_half_even (\<bar>x\<bar> * 100))"
  have n: "of_nat n = (of_int (round_half_even (\<bar>x\<bar> * 100)) :: rat)"
    unfolding n_def using round_half_even_nonneg [of "\<bar>x\<bar> * 100"]
    by (simp add: of_nat_nat)
  show ?thesis
  proof (cases "x < 0")
    case True
    then have "Sprintf_2f x = CHR ''-'' # itoa (n div 100) @ CHR ''.'' # [digit_char (n div 10 mod 10), digit_char (n mod 10)]"
      by (simp add: Sprintf_2f_def Let_def n_def)
    then show ?thesis using True by (simp add: ParseFloat_minus_body round_half_even_2dp_def n)
  next
    case False
    then have "Sprintf_2f x = itoa (n div 100) @ CHR ''.'' # [digit_char (n div 10 mod 10), digit_char (n mod 10)]"
      by (simp add: Sprintf_2f_def Let_def n_def)
    then show ?thesis using False by (simp add: ParseFloat_body round_half_even_2dp_def n)
  qed
qed

lemma parseFloat_round_half_even_2dp: "parseFloat c x = round_half_even_2dp x"
  by (simp add: parseFloat_def parseFloat_with_def ParseFloat_Sprintf)

lemma parseFloat_with_strconv:
  "parseFloat_with strconv_ParseFloat x = round_half_even_2dp x"
  by (simp add: parseFloat_with_def ParseFloat_Sprintf)

section \<open>Properties of the rounding rule\<close>

lemma round_half_even_cases:
  "round_half_even q = \<lfloor>q\<rfloor> \<or> round_half_even q = \<lfloor>q\<rfloor> + 1"
  by (simp add: round_half_even_def Let_def)




lemma round_half_even_mono:
  assumes "q \<le> q'"
  shows "round_half_even q \<le> round_half_even q'"
proof (cases "\<lfloor>q\<rfloor> < \<lfloor>q'\<rfloor>")
  case True
  have "round_half_even q \<le> \<lfloor>q\<rfloor> + 1" using round_half_even_cases [of q] by auto
  also have "\<dots> \<le> \<lfloor>q'\<rfloor>" using True by simp
  also have "\<dots> \<le> round_half_even q'" using round_half_even_cases [of q'] by auto
  finally show ?thesis .
next
  case False
  moreover have "\<lfloor>q\<rfloor> \<le> \<lfloor>q'\<rfloor>" using assms by (rule floor_mono)
  ultimately have eq: "\<lfloor>q\<rfloor> = \<lfloor>q'\<rfloor>" by simp
  then show ?thesis using assms
    by (auto simp: round_half_even_def Let_def)
qed

lemma round_half_even_2dp_mono:
  assumes "x \<le> y"
  shows "round_half_even_2dp x \<le> round_half_even_2dp y"
proof -
  have nn: "\<And>z::rat. 0 \<le> round_half_even (\<bar>z\<bar> * 100)"
    by (rule round_half_even_nonneg) simp
  consider "x < 0" "y < 0" | "x < 0" "0 \<le> y" | "0 \<le> x" "0 \<le> y"
    using assms by linarith
  then show ?thesis
  proof cases
    case 1
    then have "\<bar>y\<bar> * 100 \<le> \<bar>x\<bar> * 100" using assms by simp
    then have "round_half_even (\<bar>y\<bar> * 100) \<le> round_half_even (\<bar>x\<bar> * 100)"
      by (rule round_half_even_mono)
    then have "(of_int (round_half_even (\<bar>y\<bar> * 100)) :: rat) \<le> of_int (round_half_even (\<bar>x\<bar> * 100))"
      by simp
    with 1 show ?thesis by (simp add: round_half_even_2dp_def)
  next
    case 2
    have "(0::rat) \<le> of_int (round_half_even (\<bar>x\<bar> * 100))" "(0::rat) \<le> of_int (round_half_even (\<bar>y\<bar> * 100))"
      using nn by simp_all
    with 2 show ?thesis by (simp add: round_half_even_2dp_def)
  next
    case 3
    then have "\<bar>x\<bar> * 100 \<le> \<bar>y\<bar> * 100" using assms by simp
    then have "round_half_even (\<bar>x\<bar> * 100) \<le> round_half_even (\<bar>y\<bar> * 100)"
      by (rule round_half_even_mono)
    then have "(of_int (round_half_even (\<bar>x\<bar> * 100)) :: rat) \<le> of_int (round_half_even (\<bar>y\<bar> * 100))"
      by simp
    with 3 show ?thesis by (simp add: round_half_even_2dp_def)
  qed
qed











text \<open>Evaluating the rounding on numerals.\<close>

lemma floor_numeral_div_rat:
  "\<lfloor>numeral a / numeral b :: rat\<rfloor> = numeral a div numeral b"
  using floor_divide_of_int_eq [of "numeral a" "numeral b", where ?'a = rat] by simp

lemmas round_eval = round_half_even_2dp_def round_half_even_def Let_def floor_numeral_div_rat

section \<open>Set membership, eligibility and the cheapest item\<close>

lemma map_index_sku_map:
  "map_index (sku_map skus m) k = (if k \<in> set skus then True else map_index m k)"
  by (induction skus arbitrary: m) (auto simp: map_index_def)

lemma map_index_sku_map_empty:
  "map_index (sku_map skus Map.empty) k = (k \<in> set skus)"
  unfolding map_index_sku_map by (simp add: map_index_def)

lemma eligible_loop_filter:
  "eligible_loop m items = filter (\<lambda>item. map_index m (Sku item)) items"
  by (induction items) simp_all

lemma prerequisite_loop_ex:
  "prerequisite_loop m items = (\<exists>item \<in> set items. map_index m (Sku item))"
  by (induction items) simp_all

lemma getEligibleForDiscount_filter:
  "getEligibleForDiscount c items =
     filter (\<lambda>item. Sku item \<in> set (EligibleSkus (config c))) items"
  by (simp add: getEligibleForDiscount_def eligible_loop_filter map_index_sku_map_empty)

lemma eligible_empty_iff:
  "(getEligibleForDiscount c items = []) =
     (\<not> (\<exists>item \<in> set items. Sku item \<in> set (EligibleSkus (config c))))"
  by (auto simp: getEligibleForDiscount_filter filter_empty_conv)

lemma hasPrerequisiteSku_iff:
  "hasPrerequisiteSku c items = (\<exists>item \<in> set items. Sku item \<in> set (PrerequisiteSkus (config c)))"
  by (simp add: hasPrerequisiteSku_def prerequisite_loop_ex map_index_sku_map_empty)

lemma cheapest_loop_in: "cheapest_loop ch items \<in> insert ch (set items)"
  by (induction items arbitrary: ch) auto

lemma cheapest_loop_le_start: "Price (cheapest_loop ch items) \<le> Price ch"
proof (induction items arbitrary: ch)
  case Nil
  show ?case by simp
next
  case (Cons item items)
  have "Price (cheapest_loop (if Price ch > Price item then item else ch) items)
        \<le> Price (if Price ch > Price item then item else ch)"
    by (rule Cons.IH)
  then show ?case by (auto split: if_splits)
qed

lemma cheapest_loop_le_items: "y \<in> set items \<Longrightarrow> Price (cheapest_loop ch items) \<le> Price y"
proof (induction items arbitrary: ch)
  case Nil
  then show ?case by simp
next
  case (Cons item items)
  let ?ch = "if Price ch > Price item then item else ch"
  show ?case
  proof (cases "y = item")
    case True
    have "Price (cheapest_loop ?ch items) \<le> Price ?ch" by (rule cheapest_loop_le_start)
    also have "\<dots> \<le> Price item" by simp
    finally show ?thesis using True by simp
  next
    case False
    with Cons.prems have "y \<in> set items" by simp
    then have "Price (cheapest_loop ?ch items) \<le> Price y" by (rule Cons.IH)
    then show ?thesis by simp
  qed
qed

lemma cheapest_loop_first:
  "\<exists>i < length (ch # items). (ch # items) ! i = cheapest_loop ch items
      \<and> (\<forall>j < i. Price (cheapest_loop ch items) < Price ((ch # items) ! j))"
proof (induction items arbitrary: ch)
  case Nil
  show ?case by simp
next
  case (Cons item items)
  show ?case
  proof (cases "Price ch > Price item")
    case True
    from Cons.IH [of item] obtain i where i: "i < length (item # items)"
      "(item # items) ! i = cheapest_loop item items"
      "\<forall>j < i. Price (cheapest_loop item items) < Price ((item # items) ! j)" by blast
    have le: "Price (cheapest_loop item items) \<le> Price item" by (rule cheapest_loop_le_start)
    have "\<forall>j < Suc i. Price (cheapest_loop item items) < Price ((ch # item # items) ! j)"
    proof (intro allI impI)
      fix j assume "j < Suc i"
      show "Price (cheapest_loop item items) < Price ((ch # item # items) ! j)"
      proof (cases j)
        case 0
        then show ?thesis using True le by simp
      next
        case (Suc j')
        with \<open>j < Suc i\<close> have "j' < i" by simp
        with i(3) Suc show ?thesis by simp
      qed
    qed
    with i(1,2) True show ?thesis
      by (intro exI [of _ "Suc i"]) simp
  next
    case False
    from Cons.IH [of ch] obtain i where i: "i < length (ch # items)"
      "(ch # items) ! i = cheapest_loop ch items"
      "\<forall>j < i. Price (cheapest_loop ch items) < Price ((ch # items) ! j)" by blast
    show ?thesis
    proof (cases i)
      case 0
      with i False show ?thesis by (intro exI [of _ 0]) simp
    next
      case (Suc i')
      from i(3) Suc have lt0: "Price (cheapest_loop ch items) < Price ch" by auto
      have "\<forall>j < Suc i. Price (cheapest_loop ch items) < Price ((ch # item # items) ! j)"
      proof (intro allI impI)
        fix j assume j: "j < Suc i"
        show "Price (cheapest_loop ch items) < Price ((ch # item # items) ! j)"
        proof (cases j)
          case 0
          then show ?thesis using lt0 by simp
        next
          case (Suc j')
          show ?thesis
          proof (cases j')
            case 0
            with Suc lt0 False show ?thesis by simp
          next
            case (Suc j'')
            with \<open>j = Suc j'\<close> j have "Suc j'' < i" by simp
            with i(3) have "Price (cheapest_loop ch items) < Price ((ch # items) ! Suc j'')" by blast
            with Suc \<open>j = Suc j'\<close> show ?thesis by simp
          qed
        qed
      qed
      moreover have "(ch # item # items) ! Suc i = cheapest_loop ch items"
        using i(2) Suc by simp
      moreover have "Suc i < length (ch # item # items)" using i(1) by simp
      ultimately show ?thesis using False
        by (intro exI [of _ "Suc i"]) simp
    qed
  qed
qed

lemma getCheapestProduct_Cons:
  "getCheapestProduct c (x # xs) = Inr (cheapest_loop x xs)"
  by (simp add: getCheapestProduct_def)

section \<open>The pricing loop and the outcomes of the computation\<close>

lemma price_loop_items:
  "fst (price_loop rnd sku dv items t) =
     map (\<lambda>item. item\<lparr>DiscountedPrice := rnd (Price item - (if Sku item = sku then dv else 0))\<rparr>) items"
  by (induction items arbitrary: t) (simp_all add: Let_def split_beta)


lemma price_loop_nth:
  "i < length items \<Longrightarrow>
     fst (price_loop rnd sku dv items t) ! i
       = (items ! i)\<lparr>DiscountedPrice := rnd (Price (items ! i) - (if Sku (items ! i) = sku then dv else 0))\<rparr>"
  by (simp add: price_loop_items)





lemma select_none:
  assumes "\<not> hasPrerequisiteSku c (LineItems cart) \<or> getEligibleForDiscount c (LineItems cart) = []"
  shows "CalculateTotalWithDiscount_with parse c cart =
           Inr \<lparr>Reference = Reference cart,
                LineItems = fst (price_loop (parseFloat_with parse) '''' 0 (LineItems cart) 0),
                Total = parseFloat_with parse (snd (price_loop (parseFloat_with parse) '''' 0 (LineItems cart) 0))\<rparr>"
  using assms by (auto simp: CalculateTotalWithDiscount_with_def Let_def split_beta)

lemma select_some:
  assumes "hasPrerequisiteSku c (LineItems cart)"
    and "getEligibleForDiscount c (LineItems cart) = e # es"
    and "DiscountUnit (config c) = ''percentage''"
  shows "CalculateTotalWithDiscount_with parse c cart =
           Inr \<lparr>Reference = Reference cart,
                LineItems = fst (price_loop (parseFloat_with parse) (Sku (cheapest_loop e (e # es)))
                    (Price (cheapest_loop e (e # es)) * DiscountValue (config c) / 100) (LineItems cart) 0),
                Total = parseFloat_with parse (snd (price_loop (parseFloat_with parse) (Sku (cheapest_loop e (e # es)))
                    (Price (cheapest_loop e (e # es)) * DiscountValue (config c) / 100) (LineItems cart) 0))\<rparr>"
  using assms
  by (simp add: CalculateTotalWithDiscount_with_def Let_def split_beta getCheapestProduct_def
      calculateDiscount_def del: cheapest_loop.simps)

lemma select_unsupported:
  assumes "hasPrerequisiteSku c (LineItems cart)"
    and "getEligibleForDiscount c (LineItems cart) \<noteq> []"
    and "DiscountUnit (config c) \<noteq> ''percentage''"
  shows "CalculateTotalWithDiscount_with parse c cart = Inl (errors_New ''unsupported discount method'')"
  using assms
  by (simp add: CalculateTotalWithDiscount_with_def Let_def split_beta getCheapestProduct_def
      calculateDiscount_def del: cheapest_loop.simps)

text \<open>
  Whatever the parser does, the computation either returns a cart priced by the loop for
  some discounted SKU and discount value, or stops with the unsupported-unit error.
\<close>

lemma compute_outcomes:
  "(\<exists>sku dv. CalculateTotalWithDiscount_with parse c cart =
       Inr \<lparr>Reference = Reference cart,
            LineItems = fst (price_loop (parseFloat_with parse) sku dv (LineItems cart) 0),
            Total = parseFloat_with parse
              (snd (price_loop (parseFloat_with parse) sku dv (LineItems cart) 0))\<rparr>)
   \<or> CalculateTotalWithDiscount_with parse c cart = Inl (errors_New ''unsupported discount method'')"
proof (cases "hasPrerequisiteSku c (LineItems cart) \<and> getEligibleForDiscount c (LineItems cart) \<noteq> []")
  case False
  then have "\<not> hasPrerequisiteSku c (LineItems cart) \<or> getEligibleForDiscount c (LineItems cart) = []"
    by simp
  from select_none [OF this] show ?thesis by blast
next
  case True
  then obtain e es where el: "getEligibleForDiscount c (LineItems cart) = e # es"
    by (cases "getEligibleForDiscount c (LineItems cart)") auto
  show ?thesis
  proof (cases "DiscountUnit (config c) = ''percentage''")
    case p: True
    from True have h: "hasPrerequisiteSku c (LineItems cart)" by simp
    from select_some [OF h el p] show ?thesis by blast
  next
    case p: False
    from True p show ?thesis by (simp add: select_unsupported)
  qed
qed

lemma compute_error_iff:
  "(CalculateTotalWithDiscount_with parse c cart = Inl e) =
     (e = errors_New ''unsupported discount method''
      \<and> DiscountUnit (config c) \<noteq> ''percentage''
      \<and> hasPrerequisiteSku c (LineItems cart)
      \<and> getEligibleForDiscount c (LineItems cart) \<noteq> [])"
proof (cases "hasPrerequisiteSku c (LineItems cart) \<and> getEligibleForDiscount c (LineItems cart) \<noteq> []")
  case False
  then have "\<not> hasPrerequisiteSku c (LineItems cart) \<or> getEligibleForDiscount c (LineItems cart) = []"
    by simp
  from select_none [OF this, of parse] False show ?thesis by auto
next
  case True
  then obtain x xs where el: "getEligibleForDiscount c (LineItems cart) = x # xs"
    by (cases "getEligibleForDiscount c (LineItems cart)") auto
  from True have h: "hasPrerequisiteSku c (LineItems cart)" by simp
  show ?thesis
  proof (cases "DiscountUnit (config c) = ''percentage''")
    case p: True
    from select_some [OF h el p, of parse] p show ?thesis by simp
  next
    case p: False
    from True have ne: "getEligibleForDiscount c (LineItems cart) \<noteq> []" by simp
    from select_unsupported [OF h ne p, of parse] True p show ?thesis by auto
  qed
qed

text \<open>
  The discounted SKU and the discount value that the pricing loop is run with. The
  discount value is the cheapest eligible price times the configured percentage over one
  hundred, or zero when no discount is due.
\<close>

lemma compute_result_shape:
  assumes "CalculateTotalWithDiscount_with parse c cart = Inr out"
  shows "\<exists>sku dv. (dv = 0 \<or> (\<exists>ch \<in> set (LineItems cart). dv = Price ch * DiscountValue (config c) / 100))
      \<and> out = \<lparr>Reference = Reference cart,
            LineItems = fst (price_loop (parseFloat_with parse) sku dv (LineItems cart) 0),
            Total = parseFloat_with parse
              (snd (price_loop (parseFloat_with parse) sku dv (LineItems cart) 0))\<rparr>"
proof (cases "hasPrerequisiteSku c (LineItems cart) \<and> getEligibleForDiscount c (LineItems cart) \<noteq> []")
  case False
  then have "\<not> hasPrerequisiteSku c (LineItems cart) \<or> getEligibleForDiscount c (LineItems cart) = []"
    by simp
  from select_none [OF this, of parse] assms show ?thesis by auto
next
  case True
  then obtain x xs where el: "getEligibleForDiscount c (LineItems cart) = x # xs"
    by (cases "getEligibleForDiscount c (LineItems cart)") auto
  from True have h: "hasPrerequisiteSku c (LineItems cart)" by simp
  have p: "DiscountUnit (config c) = ''percentage''"
    using assms compute_error_iff [of parse c cart "errors_New ''unsupported discount method''"] True
    by auto
  let ?ch = "cheapest_loop x (x # xs)"
  have "?ch \<in> set (x # xs)" using cheapest_loop_in [of x "x # xs"] by simp
  then have "?ch \<in> set (getEligibleForDiscount c (LineItems cart))" by (simp only: el)
  then have mem: "?ch \<in> set (LineItems cart)" by (simp add: getEligibleForDiscount_filter)
  from select_some [OF h el p, of parse] assms
  have "out = \<lparr>Reference = Reference cart,
            LineItems = fst (price_loop (parseFloat_with parse) (Sku ?ch)
              (Price ?ch * DiscountValue (config c) / 100) (LineItems cart) 0),
            Total = parseFloat_with parse
              (snd (price_loop (parseFloat_with parse) (Sku ?ch)
                (Price ?ch * DiscountValue (config c) / 100) (LineItems cart) 0))\<rparr>"
    by simp
  with mem show ?thesis by blast
qed

section \<open>The computation on concrete carts\<close>

lemma scenario_A:
  "CalculateTotalWithDiscount (NewCashier default_config) test_cart =
     Inr \<lparr>Reference = ''2d832fe0-6c96-4515-9be7-4c00983539c1'',
      LineItems =
        [\<lparr>Name = ''Peanut Butter'', Price = 39, Sku = ''PEANUT-BUTTER'', DiscountedPrice = 39\<rparr>,
         \<lparr>Name = ''Fruity'', Price = 3499 / 100, Sku = ''FRUITY'', DiscountedPrice = 3499 / 100\<rparr>,
         \<lparr>Name = ''Chocolate'', Price = 32, Sku = ''CHOCOLATE'', DiscountedPrice = 16\<rparr>],
      Total = 8999 / 100\<rparr>"
  apply (simp add: CalculateTotalWithDiscount_def CalculateTotalWithDiscount_with_def NewCashier_def
      default_config_def hasPrerequisiteSku_iff getEligibleForDiscount_filter test_cart_def)
  apply (simp add: getCheapestProduct_def calculateDiscount_def)
  apply (simp add: parseFloat_with_strconv)
  apply (simp add: round_eval)
  done

lemma scenario_B:
  "CalculateTotalWithDiscount (NewCashier default_config) cart_multiple_eligible =
     Inr \<lparr>Reference = ''2d832fe0-6c96-4515-9be7-4c00983539c1'',
      LineItems =
        [\<lparr>Name = ''Peanut Butter'', Price = 39, Sku = ''PEANUT-BUTTER'', DiscountedPrice = 39\<rparr>,
         \<lparr>Name = ''Cocoa'', Price = 35, Sku = ''COCOA'', DiscountedPrice = 35\<rparr>,
         \<lparr>Name = ''Chocolate'', Price = 32, Sku = ''CHOCOLATE'', DiscountedPrice = 16\<rparr>,
         \<lparr>Name = ''Banana Cake'', Price = 36, Sku = ''BANANA-CAKE'', DiscountedPrice = 36\<rparr>],
      Total = 126\<rparr>"
  apply (simp add: CalculateTotalWithDiscount_def CalculateTotalWithDiscount_with_def NewCashier_def
      default_config_def hasPrerequisiteSku_iff getEligibleForDiscount_filter
      cart_multiple_eligible_def)
  apply (simp add: getCheapestProduct_def calculateDiscount_def)
  apply (simp add: parseFloat_with_strconv)
  apply (simp add: round_eval)
  done



lemma fixed_unit_test_cart:
  "CalculateTotalWithDiscount (NewCashier fixed_unit_config) test_cart =
     Inl (errors_New ''unsupported discount method'')"
  apply (simp add: CalculateTotalWithDiscount_def CalculateTotalWithDiscount_with_def NewCashier_def
      fixed_unit_config_def hasPrerequisiteSku_iff getEligibleForDiscount_filter test_cart_def)
  apply (simp add: getCheapestProduct_def calculateDiscount_def)
  done



lemma sixteenths_result:
  "CalculateTotalWithDiscount (NewCashier default_config) cart_sixteenths =
     Inr \<lparr>Reference = ''sixteenths'',
      LineItems =
        [\<lparr>Name = ''Banana Cake'', Price = 7 / 16, Sku = ''BANANA-CAKE'', DiscountedPrice = 11 / 25\<rparr>],
      Total = 11 / 25\<rparr>"
  apply (simp add: CalculateTotalWithDiscount_def CalculateTotalWithDiscount_with_def NewCashier_def
      default_config_def hasPrerequisiteSku_iff getEligibleForDiscount_filter cart_sixteenths_def)
  apply (simp add: parseFloat_with_strconv)
  apply (simp add: round_eval)
  done




section \<open>Applying the discount\<close>




section \<open>The total\<close>



section \<open>Cheapest-item selection\<close>

text \<open>
  Claim C3. On a non-empty list of candidates \<open>getCheapestProduct\<close> succeeds; the item it
  returns stands at some position \<open>i\<close> of the list, no candidate is cheaper, and every
  candidate before position \<open>i\<close> is strictly more expensive: the scan replaces its
  running candidate only on a strictly lower price, so among the candidates of minimal
  price the earliest one is returned.
\<close>

theorem getCheapestProduct_minimal_first:
  assumes "items \<noteq> []"
  shows "\<exists>item i. getCheapestProduct c items = Inr item
           \<and> i < length items \<and> items ! i = item
           \<and> (\<forall>y \<in> set items. Price item \<le> Price y)
           \<and> (\<forall>j < i. Price item < Price (items ! j))"
proof -
  from assms obtain x xs where items: "items = x # xs" by (cases items) auto
  let ?r = "cheapest_loop x xs"
  obtain i where i: "i < length (x # xs)" "(x # xs) ! i = ?r"
    "\<forall>j < i. Price ?r < Price ((x # xs) ! j)"
    using cheapest_loop_first [of x xs] by blast
  have le: "\<forall>y \<in> set (x # xs). Price ?r \<le> Price y"
    using cheapest_loop_le_start [of x xs] cheapest_loop_le_items [of _ xs x] by auto
  show ?thesis
    unfolding items getCheapestProduct_Cons using i le by blast
qed

theorem getCheapestProduct_minimal_first_witness:
  "LineItems cart_multiple_eligible \<noteq> []
   \<and> getCheapestProduct (NewCashier default_config) (LineItems cart_multiple_eligible)
       = Inr \<lparr>Name = ''Chocolate'', Price = 32, Sku = ''CHOCOLATE'', DiscountedPrice = 0\<rparr>
   \<and> LineItems cart_multiple_eligible ! 2
       = \<lparr>Name = ''Chocolate'', Price = 32, Sku = ''CHOCOLATE'', DiscountedPrice = 0\<rparr>"
  using getCheapestProduct_minimal_first
    [of "LineItems cart_multiple_eligible" "NewCashier default_config"]
  by (simp add: cart_multiple_eligible_def getCheapestProduct_def)

text \<open>
  Claim C9. \<open>getCheapestProduct\<close> on the empty list fails with the error "empty list of
  products", and \<open>CalculateTotalWithDiscount\<close> never returns that error, whatever the
  configuration and the cart: it calls the selection only on a non-empty eligible list.
\<close>

theorem empty_list_error_defined_and_unreachable:
  "getCheapestProduct c [] = Inl (errors_New ''empty list of products'')
   \<and> CalculateTotalWithDiscount c cart \<noteq> Inl (errors_New ''empty list of products'')"
proof -
  have a: "getCheapestProduct c [] = Inl (errors_New ''empty list of products'')"
    by (simp add: getCheapestProduct_def)
  have b: "CalculateTotalWithDiscount c cart \<noteq> Inl (errors_New ''empty list of products'')"
    using compute_outcomes [of strconv_ParseFloat c cart]
    by (auto simp: CalculateTotalWithDiscount_def)
  from a b show ?thesis by simp
qed

section \<open>Carts without a prerequisite item\<close>




section \<open>Discounted price against input price\<close>

text \<open>
  Claim C5, as amended. Let the prices of the cart and the discount value of the
  configuration be non-negative. In the cart returned by \<open>CalculateTotalWithDiscount\<close>,
  each line item keeps its input price, and its discounted price is at most that price
  rounded to two fractional digits; it is at most the input price itself whenever the
  input price has no more than two fractional digits (rounding leaves it unchanged). (As
  stated, without the rounding, the claim fails for a price that rounds upwards.)
\<close>

theorem discounted_price_le_rounded_price:
  assumes "CalculateTotalWithDiscount c cart = Inr out"
    and "0 \<le> DiscountValue (config c)"
    and "\<forall>item \<in> set (LineItems cart). 0 \<le> Price item"
  shows "length (LineItems out) = length (LineItems cart)
     \<and> (\<forall>i < length (LineItems cart).
           Price (LineItems out ! i) = Price (LineItems cart ! i)
           \<and> DiscountedPrice (LineItems out ! i) \<le> parseFloat c (Price (LineItems cart ! i))
           \<and> (parseFloat c (Price (LineItems cart ! i)) = Price (LineItems cart ! i)
                \<longrightarrow> DiscountedPrice (LineItems out ! i) \<le> Price (LineItems out ! i)))"
proof -
  let ?rnd = "parseFloat_with strconv_ParseFloat"
  from assms(1) have "CalculateTotalWithDiscount_with strconv_ParseFloat c cart = Inr out"
    by (simp add: CalculateTotalWithDiscount_def)
  from compute_result_shape [OF this] obtain sku dv where
    dv: "dv = 0 \<or> (\<exists>ch \<in> set (LineItems cart). dv = Price ch * DiscountValue (config c) / 100)"
    and out: "out = \<lparr>Reference = Reference cart,
            LineItems = fst (price_loop ?rnd sku dv (LineItems cart) 0),
            Total = ?rnd (snd (price_loop ?rnd sku dv (LineItems cart) 0))\<rparr>"
    by blast
  have dv0: "0 \<le> dv"
  proof -
    from dv show ?thesis
    proof
      assume "dv = 0" then show ?thesis by simp
    next
      assume "\<exists>ch \<in> set (LineItems cart). dv = Price ch * DiscountValue (config c) / 100"
      then obtain ch where "ch \<in> set (LineItems cart)" "dv = Price ch * DiscountValue (config c) / 100"
        by blast
      with assms(3) have "0 \<le> Price ch" by blast
      from this assms(2) have "0 \<le> Price ch * DiscountValue (config c)" by (rule mult_nonneg_nonneg)
      then show ?thesis unfolding \<open>dv = Price ch * DiscountValue (config c) / 100\<close> by simp
    qed
  qed
  have len: "length (LineItems out) = length (LineItems cart)"
    by (simp add: out price_loop_items)
  have each: "Price (LineItems out ! i) = Price (LineItems cart ! i)
           \<and> DiscountedPrice (LineItems out ! i) \<le> parseFloat c (Price (LineItems cart ! i))
           \<and> (parseFloat c (Price (LineItems cart ! i)) = Price (LineItems cart ! i)
                \<longrightarrow> DiscountedPrice (LineItems out ! i) \<le> Price (LineItems out ! i))"
    if i: "i < length (LineItems cart)" for i
  proof -
    let ?item = "LineItems cart ! i"
    let ?d = "if Sku ?item = sku then dv else 0"
    have nth: "LineItems out ! i = ?item\<lparr>DiscountedPrice := ?rnd (Price ?item - ?d)\<rparr>"
      using price_loop_nth [OF i, of ?rnd sku dv 0] by (simp add: out)
    have "Price ?item - ?d \<le> Price ?item" using dv0 by simp
    then have "round_half_even_2dp (Price ?item - ?d) \<le> round_half_even_2dp (Price ?item)"
      by (rule round_half_even_2dp_mono)
    then have le: "DiscountedPrice (LineItems out ! i) \<le> parseFloat c (Price ?item)"
      by (simp add: nth parseFloat_with_strconv parseFloat_round_half_even_2dp)
    have pr: "Price (LineItems out ! i) = Price ?item" by (simp add: nth)
    from le pr show ?thesis by simp
  qed
  from len each show ?thesis by blast
qed

theorem discounted_price_le_rounded_price_witness:
  "0 \<le> DiscountValue (config (NewCashier default_config))
   \<and> list_all (\<lambda>item. 0 \<le> Price item) (LineItems test_cart)
   \<and> CalculateTotalWithDiscount (NewCashier default_config) test_cart =
     Inr \<lparr>Reference = ''2d832fe0-6c96-4515-9be7-4c00983539c1'',
      LineItems =
        [\<lparr>Name = ''Peanut Butter'', Price = 39, Sku = ''PEANUT-BUTTER'', DiscountedPrice = 39\<rparr>,
         \<lparr>Name = ''Fruity'', Price = 3499 / 100, Sku = ''FRUITY'', DiscountedPrice = 3499 / 100\<rparr>,
         \<lparr>Name = ''Chocolate'', Price = 32, Sku = ''CHOCOLATE'', DiscountedPrice = 16\<rparr>],
      Total = 8999 / 100\<rparr>
   \<and> (16::rat) \<le> parseFloat (NewCashier default_config) 32
   \<and> parseFloat (NewCashier default_config) 32 = 32"
proof -
  have v: "0 \<le> DiscountValue (config (NewCashier default_config))"
    by (simp add: NewCashier_def default_config_def)
  have p: "\<forall>item \<in> set (LineItems test_cart). 0 \<le> Price item"
    by (simp add: test_cart_def)
  have r: "parseFloat (NewCashier default_config) 32 = 32"
    by (simp add: parseFloat_round_half_even_2dp round_eval)
  from discounted_price_le_rounded_price [OF scenario_A v p]
  have "\<forall>i < length (LineItems test_cart).
      DiscountedPrice ([\<lparr>Name = ''Peanut Butter'', Price = 39, Sku = ''PEANUT-BUTTER'', DiscountedPrice = 39\<rparr>,
         \<lparr>Name = ''Fruity'', Price = 3499 / 100, Sku = ''FRUITY'', DiscountedPrice = 3499 / 100\<rparr>,
         \<lparr>Name = ''Chocolate'', Price = 32, Sku = ''CHOCOLATE'', DiscountedPrice = 16\<rparr>] ! i)
        \<le> parseFloat (NewCashier default_config) (Price (LineItems test_cart ! i))"
    by simp
  from this [rule_format, of 2]
  have "(16::rat) \<le> parseFloat (NewCashier default_config) 32"
    by (simp add: test_cart_def)
  with v p r scenario_A show ?thesis by (simp add: list_all_iff)
qed

theorem discounted_price_above_price_counterexample:
  "CalculateTotalWithDiscount (NewCashier default_config) cart_sixteenths =
     Inr \<lparr>Reference = ''sixteenths'',
      LineItems =
        [\<lparr>Name = ''Banana Cake'', Price = 7 / 16, Sku = ''BANANA-CAKE'', DiscountedPrice = 11 / 25\<rparr>],
      Total = 11 / 25\<rparr>
   \<and> \<not> ((11::rat) / 25 \<le> 7 / 16)"
  by (simp add: sixteenths_result)

section \<open>The rounding step\<close>




section \<open>A failing rounding primitive\<close>




section \<open>The discount unit\<close>




text \<open>
  Claim C10. If no line item of the cart has a prerequisite SKU, or no line item has an
  eligible SKU, \<open>CalculateTotalWithDiscount\<close> returns a cart, whatever the discount unit of
  the configuration; and whenever it returns an error, the cart holds both an item with a
  prerequisite SKU and an item with an eligible SKU, so the unit is only looked at then.
\<close>

theorem unit_checked_only_when_discount_due:
  "(\<not> (\<exists>item \<in> set (LineItems cart). Sku item \<in> set (PrerequisiteSkus (config c)))
      \<or> \<not> (\<exists>item \<in> set (LineItems cart). Sku item \<in> set (EligibleSkus (config c)))
     \<longrightarrow> (\<exists>out. CalculateTotalWithDiscount c cart = Inr out))
   \<and> (CalculateTotalWithDiscount c cart = Inl e
     \<longrightarrow> (\<exists>item \<in> set (LineItems cart). Sku item \<in> set (PrerequisiteSkus (config c)))
       \<and> (\<exists>item \<in> set (LineItems cart). Sku item \<in> set (EligibleSkus (config c))))"
proof (intro conjI impI)
  assume "\<not> (\<exists>item \<in> set (LineItems cart). Sku item \<in> set (PrerequisiteSkus (config c)))
      \<or> \<not> (\<exists>item \<in> set (LineItems cart). Sku item \<in> set (EligibleSkus (config c)))"
  then have "\<not> hasPrerequisiteSku c (LineItems cart) \<or> getEligibleForDiscount c (LineItems cart) = []"
    by (simp add: hasPrerequisiteSku_iff eligible_empty_iff)
  from select_none [OF this, of strconv_ParseFloat]
  show "\<exists>out. CalculateTotalWithDiscount c cart = Inr out"
    by (simp add: CalculateTotalWithDiscount_def)
next
  assume "CalculateTotalWithDiscount c cart = Inl e"
  then have "hasPrerequisiteSku c (LineItems cart)" "getEligibleForDiscount c (LineItems cart) \<noteq> []"
    by (simp_all add: CalculateTotalWithDiscount_def compute_error_iff)
  then show "\<exists>item \<in> set (LineItems cart). Sku item \<in> set (PrerequisiteSkus (config c))"
    "\<exists>item \<in> set (LineItems cart). Sku item \<in> set (EligibleSkus (config c))"
    by (simp_all add: hasPrerequisiteSku_iff eligible_empty_iff)
qed

theorem unit_checked_only_when_discount_due_witness:
  "\<not> (\<exists>item \<in> set (LineItems cart_not_eligible).
         Sku item \<in> set (PrerequisiteSkus (config (NewCashier fixed_unit_config))))
   \<and> (\<exists>out. CalculateTotalWithDiscount (NewCashier fixed_unit_config) cart_not_eligible = Inr out)
   \<and> CalculateTotalWithDiscount (NewCashier fixed_unit_config) test_cart
       = Inl (errors_New ''unsupported discount method'')
   \<and> (\<exists>item \<in> set (LineItems test_cart).
         Sku item \<in> set (PrerequisiteSkus (config (NewCashier fixed_unit_config))))
   \<and> (\<exists>item \<in> set (LineItems test_cart).
         Sku item \<in> set (EligibleSkus (config (NewCashier fixed_unit_config))))"
proof -
  have h: "\<not> (\<exists>item \<in> set (LineItems cart_not_eligible).
         Sku item \<in> set (PrerequisiteSkus (config (NewCashier fixed_unit_config))))"
    by (simp add: cart_not_eligible_def NewCashier_def fixed_unit_config_def)
  note a = unit_checked_only_when_discount_due
    [of cart_not_eligible "NewCashier fixed_unit_config"
      "errors_New ''unsupported discount method''", THEN conjunct1]
  note b = unit_checked_only_when_discount_due
    [of test_cart "NewCashier fixed_unit_config" "errors_New ''unsupported discount method''",
      THEN conjunct2]
  from h a have "\<exists>out. CalculateTotalWithDiscount (NewCashier fixed_unit_config) cart_not_eligible = Inr out"
    by blast
  moreover from b fixed_unit_test_cart
  have "(\<exists>item \<in> set (LineItems test_cart).
         Sku item \<in> set (PrerequisiteSkus (config (NewCashier fixed_unit_config))))
   \<and> (\<exists>item \<in> set (LineItems test_cart).
         Sku item \<in> set (EligibleSkus (config (NewCashier fixed_unit_config))))"
    by blast
  ultimately show ?thesis using h fixed_unit_test_cart by blast
qed

end
